theory Spec2Isabelle
  imports Main
begin

section \<open>Options, configuration and launch arguments\<close>

text \<open>
  The module \<^verbatim>\<open>src/index.ts\<close> starts a server for a build of the editor, opens a
  browser on it through the browser-automation library and, when tests are run, waits
  for the page to call an exit function. An optional field \<^verbatim>\<open>f?: T\<close> of the
  \<^verbatim>\<open>Options\<close> interface is a field of type \<open>T option\<close>, \<open>None\<close> being
  \<^verbatim>\<open>undefined\<close>.
\<close>

datatype BrowserType = chromium | firefox | webkit

datatype VSCodeQuality = insiders | stable

record Options =
  browserType :: BrowserType
  extensionDevelopmentPath :: "string option"
  extensionTestsPath :: "string option"
  quality :: "VSCodeQuality option"
  version :: "string option"
  devTools :: "bool option"
  headless :: "bool option"
  hideServerLog :: "bool option"
  waitForDebugger :: "int option"
  folderPath :: "string option"
  folderUri :: "string option"
  permissions :: "string list option"
  extensionPaths :: "string list option"
  vsCodeDevPath :: "string option"
  verbose :: "bool option"
  port :: "int option"
  host :: "string option"

text \<open>
  The build served: \<^verbatim>\<open>{ type: 'sources', location }\<close>, or the value that
  \<^verbatim>\<open>downloadAndUnzipVSCode\<close> returns for a quality (its fields are declared in
  \<^verbatim>\<open>server/main\<close>; here it holds the location the download reports).
\<close>

datatype Build = Sources string | Static string

record IConfig =
  cfg_extensionDevelopmentPath :: "string option"
  cfg_extensionTestsPath :: "string option"
  cfg_build :: Build
  cfg_folderUri :: "string option"
  cfg_folderMountPath :: "string option"
  cfg_hideServerLog :: bool
  cfg_extensionPaths :: "string list option"

record LaunchOptions =
  lo_headless :: bool
  lo_args :: "string list"
  lo_devtools :: "bool option"

text \<open>\<^verbatim>\<open>new Error(message)\<close>, the only kind of error the module creates.\<close>

datatype JsError = Error string

text \<open>
  What \<^verbatim>\<open>`${error}`\<close> gives for an \<^verbatim>\<open>Error\<close>: its name, and the message
  after a colon when there is one.
\<close>

definition errorToString :: "JsError \<Rightarrow> string" where
  "errorToString err = (case err of Error m \<Rightarrow> if m = [] then ''Error'' else ''Error: '' @ m)"

text \<open>Truthiness of a string and of a number that may be undefined.\<close>

definition truthyString :: "string option \<Rightarrow> bool" where
  "truthyString v = (case v of None \<Rightarrow> False | Some s \<Rightarrow> s \<noteq> [])"

definition truthyNumber :: "int option \<Rightarrow> bool" where
  "truthyNumber v = (case v of None \<Rightarrow> False | Some n \<Rightarrow> n \<noteq> 0)"

text \<open>Decimal rendering of an integral number, as a template literal renders it.\<close>

definition digitChar :: "nat \<Rightarrow> char" where
  "digitChar d = char_of (48 + d)"

fun showNat :: "nat \<Rightarrow> string" where
  "showNat n = (if n < 10 then [digitChar n] else showNat (n div 10) @ [digitChar (n mod 10)])"

definition showNumber :: "int \<Rightarrow> string" where
  "showNumber i = (if i < 0 then CHR ''-'' # showNat (nat (- i)) else showNat (nat i))"

text \<open>
  The \<^verbatim>\<open>args\<close> array that \<^verbatim>\<open>openBrowser\<close> builds before the launch; the first
  parameter is \<^verbatim>\<open>process.platform\<close>.
\<close>

definition launchArgs :: "string \<Rightarrow> Options \<Rightarrow> string list" where
  "launchArgs plat options =
     (if plat = ''linux'' \<and> browserType options = chromium then [''--no-sandbox''] else [])
     @ (if truthyNumber (waitForDebugger options)
        then [''--remote-debugging-port='' @ showNumber (the (waitForDebugger options))]
        else [])"

text \<open>\<^verbatim>\<open>options.headless ?? options.extensionTestsPath !== undefined\<close>\<close>

definition launchHeadless :: "Options \<Rightarrow> bool" where
  "launchHeadless options =
     (case headless options of Some b \<Rightarrow> b | None \<Rightarrow> extensionTestsPath options \<noteq> None)"

definition width :: nat where "width = 1200"
definition height :: nat where "height = 800"

text \<open>
  The configuration object literal of \<^verbatim>\<open>runTests\<close> and the one of \<^verbatim>\<open>open\<close>
  (the source writes it once in each function).
\<close>

definition runTests_config :: "Options \<Rightarrow> Build \<Rightarrow> IConfig" where
  "runTests_config options build =
     \<lparr> cfg_extensionDevelopmentPath = extensionDevelopmentPath options,
       cfg_extensionTestsPath = extensionTestsPath options,
       cfg_build = build,
       cfg_folderUri = folderUri options,
       cfg_folderMountPath = folderPath options,
       cfg_hideServerLog = (case hideServerLog options of Some b \<Rightarrow> b | None \<Rightarrow> True),
       cfg_extensionPaths = extensionPaths options \<rparr>"

definition open_config :: "Options \<Rightarrow> Build \<Rightarrow> IConfig" where
  "open_config options build =
     \<lparr> cfg_extensionDevelopmentPath = extensionDevelopmentPath options,
       cfg_extensionTestsPath = extensionTestsPath options,
       cfg_build = build,
       cfg_folderUri = folderUri options,
       cfg_folderMountPath = folderPath options,
       cfg_hideServerLog = (case hideServerLog options of Some b \<Rightarrow> b | None \<Rightarrow> True),
       cfg_extensionPaths = extensionPaths options \<rparr>"

text \<open>\<^verbatim>\<open>options.host ?? 'localhost'\<close>, \<^verbatim>\<open>options.port ?? 3000\<close> and the endpoint.\<close>

definition hostOrDefault :: "Options \<Rightarrow> string" where
  "hostOrDefault options = (case host options of Some h \<Rightarrow> h | None \<Rightarrow> ''localhost'')"

definition portOrDefault :: "Options \<Rightarrow> int" where
  "portOrDefault options = (case port options of Some p \<Rightarrow> p | None \<Rightarrow> 3000)"

definition endpointOf :: "string \<Rightarrow> int \<Rightarrow> string" where
  "endpointOf h p = ''http://'' @ h @ '':'' @ showNumber p"

section \<open>The world outside the module\<close>

text \<open>
  Every call the module makes on the server, the browser, the context or the page is
  written to a log, oldest first. A call that the source awaits can reject; one that it
  does not await (\<^verbatim>\<open>grantPermissions\<close>, the listener registrations, the
  \<^verbatim>\<open>close\<close> calls outside the exit function) cannot stop the caller.
  \<open>CloseContext\<close> stands for \<^verbatim>\<open>context.close()\<close>, which the module never calls.
\<close>

datatype Call =
    DownloadAndUnzipVSCode string
  | RunServer string int IConfig
  | Launch BrowserType LaunchOptions
  | NewContext
  | GrantPermissions "string list"
  | OnPage
  | NewPage
  | WaitForFunction
  | OnConsole
  | SetViewportSize nat nat
  | Goto string
  | OnceContextClose
  | ExposeFunction string
  | BrowserClose
  | ServerClose
  | CloseContext

text \<open>
  The environment: the platform, which awaited calls reject and with what, the location
  a download reports, and whether the fresh context already holds a page
  (\<^verbatim>\<open>context.pages()[0]\<close>).
\<close>

record Env =
  platform :: string
  failing :: "Call \<Rightarrow> JsError option"
  staticBuild :: "string \<Rightarrow> string"
  existingPage :: bool

text \<open>
  The promise that \<^verbatim>\<open>runTests\<close> returns. Its \<^verbatim>\<open>resolve\<close> and
  \<^verbatim>\<open>reject\<close> functions (\<^verbatim>\<open>s\<close> and \<^verbatim>\<open>e\<close> in the source) settle a
  pending promise and do nothing to a settled one, as the language defines them.
\<close>

datatype PromiseState = Pending | Fulfilled | Rejected JsError

text \<open>
  The state of one session: the calls made so far, the variable \<^verbatim>\<open>openPages\<close> of
  \<^verbatim>\<open>openBrowser\<close> (which starts at 0), the promise, what was written to the console
  (the channel and the arguments), and whether the listener that
  \<^verbatim>\<open>context.once('close', ...)\<close> registered has run. \<open>w0\<close> is the state before the
  entry point is called.
\<close>

record World =
  calls :: "Call list"
  openPages :: int
  promise :: PromiseState
  console :: "(string \<times> string list) list"
  contextCloseFired :: bool

definition w0 :: World where
  "w0 = \<lparr> calls = [], openPages = 0, promise = Pending, console = [], contextCloseFired = False \<rparr>"

definition issue :: "Call \<Rightarrow> World \<Rightarrow> World" where
  "issue c w = w\<lparr>calls := calls w @ [c]\<rparr>"

definition s :: "World \<Rightarrow> World" where
  "s w = (if promise w = Pending then w\<lparr>promise := Fulfilled\<rparr> else w)"

definition e :: "JsError \<Rightarrow> World \<Rightarrow> World" where
  "e err w = (if promise w = Pending then w\<lparr>promise := Rejected err\<rparr> else w)"

text \<open>
  A straight-line run of calls: an awaited call that rejects ends the run with its
  error, after the call was made; nothing after it runs.
\<close>

datatype Step = Await Call | Fire Call

fun perform :: "Env \<Rightarrow> Step list \<Rightarrow> World \<Rightarrow> (JsError + unit) \<times> World" where
  "perform env [] w = (Inr (), w)"
| "perform env (Fire c # ss) w = perform env ss (issue c w)"
| "perform env (Await c # ss) w =
     (case failing env c of
        Some err \<Rightarrow> (Inl err, issue c w)
      | None \<Rightarrow> perform env ss (issue c w))"

text \<open>Which calls a run makes and how it ends, as functions of the steps alone.\<close>

fun callOf :: "Step \<Rightarrow> Call" where
  "callOf (Await c) = c"
| "callOf (Fire c) = c"

fun issued :: "Env \<Rightarrow> Step list \<Rightarrow> Call list" where
  "issued env [] = []"
| "issued env (Fire c # ss) = c # issued env ss"
| "issued env (Await c # ss) =
     c # (case failing env c of Some err \<Rightarrow> [] | None \<Rightarrow> issued env ss)"

fun outcome :: "Env \<Rightarrow> Step list \<Rightarrow> JsError + unit" where
  "outcome env [] = Inr ()"
| "outcome env (Fire c # ss) = outcome env ss"
| "outcome env (Await c # ss) =
     (case failing env c of Some err \<Rightarrow> Inl err | None \<Rightarrow> outcome env ss)"

text \<open>\<open>precedes a b xs\<close>: \<open>a\<close> occurs in \<open>xs\<close> before the first \<open>b\<close>.\<close>

definition precedes :: "'a \<Rightarrow> 'a \<Rightarrow> 'a list \<Rightarrow> bool" where
  "precedes a b xs = (a \<in> set (takeWhile (\<lambda>x. x \<noteq> b) xs))"

section \<open>Starting a session\<close>

text \<open>
  \<^verbatim>\<open>getBuild\<close>: the sources when \<^verbatim>\<open>vsCodeDevPath\<close> is truthy, otherwise the
  download of \<^verbatim>\<open>'stable'\<close> or \<^verbatim>\<open>'insider'\<close>, chosen from
  \<^verbatim>\<open>options.quality || options.version\<close>.
\<close>

definition qualityName :: "VSCodeQuality \<Rightarrow> string" where
  "qualityName q = (case q of insiders \<Rightarrow> ''insiders'' | stable \<Rightarrow> ''stable'')"

definition qualityArg :: "Options \<Rightarrow> string" where
  "qualityArg options =
     (let q = (case quality options of Some ql \<Rightarrow> Some (qualityName ql) | None \<Rightarrow> version options)
      in if q = Some ''stable'' then ''stable'' else ''insider'')"

definition getBuild_steps :: "Options \<Rightarrow> Step list" where
  "getBuild_steps options =
     (if truthyString (vsCodeDevPath options) then []
      else [Await (DownloadAndUnzipVSCode (qualityArg options))])"

definition buildOf :: "Env \<Rightarrow> Options \<Rightarrow> Build" where
  "buildOf env options =
     (if truthyString (vsCodeDevPath options) then Sources (the (vsCodeDevPath options))
      else Static (staticBuild env (qualityArg options)))"

definition getBuild :: "Env \<Rightarrow> Options \<Rightarrow> World \<Rightarrow> (JsError + Build) \<times> World" where
  "getBuild env options w =
     (case perform env (getBuild_steps options) w of
        (Inl err, w1) \<Rightarrow> (Inl err, w1)
      | (Inr u, w1) \<Rightarrow> (Inr (buildOf env options), w1))"

text \<open>
  \<^verbatim>\<open>openBrowser\<close>, line by line: launch, new context, the permissions (not
  awaited), the page listener, the first page, the wait for the debugger, the console
  listener, the viewport, and the navigation to the endpoint last.
\<close>

definition openBrowser_steps :: "Env \<Rightarrow> string \<Rightarrow> Options \<Rightarrow> Step list" where
  "openBrowser_steps env endpoint options =
     [Await (Launch (browserType options)
        \<lparr> lo_headless = launchHeadless options,
          lo_args = launchArgs (platform env) options,
          lo_devtools = devTools options \<rparr>),
      Await NewContext]
     @ (case permissions options of Some ps \<Rightarrow> [Fire (GrantPermissions ps)] | None \<Rightarrow> [])
     @ [Fire OnPage]
     @ (if existingPage env then [] else [Await NewPage])
     @ (if truthyNumber (waitForDebugger options) then [Await WaitForFunction] else [])
     @ (if verbose options = Some True then [Fire OnConsole] else [])
     @ [Await (SetViewportSize width height), Await (Goto endpoint)]"

definition openBrowser :: "Env \<Rightarrow> string \<Rightarrow> Options \<Rightarrow> World \<Rightarrow> (JsError + unit) \<times> World" where
  "openBrowser env endpoint options w = perform env (openBrowser_steps env endpoint options) w"

text \<open>
  \<^verbatim>\<open>open\<close> (the name is a keyword here, hence the suffix). The value returned on
  success is the disposable, whose one method is \<open>dispose\<close> below.
\<close>

definition open_session :: "Env \<Rightarrow> Options \<Rightarrow> World \<Rightarrow> (JsError + unit) \<times> World" where
  "open_session env options w =
     (case getBuild env options w of
        (Inl err, w1) \<Rightarrow> (Inl err, w1)
      | (Inr build, w1) \<Rightarrow>
          (case perform env
                  [Await (RunServer (hostOrDefault options) (portOrDefault options)
                            (open_config options build))] w1 of
             (Inl err, w2) \<Rightarrow> (Inl err, w2)
           | (Inr u, w2) \<Rightarrow>
               (case openBrowser env
                       (endpointOf (hostOrDefault options) (portOrDefault options)) options w2 of
                  (Inl err, w3) \<Rightarrow> (Inl err, w3)
                | (Inr v, w3) \<Rightarrow> perform env [Fire OnceContextClose] w3)))"

definition dispose :: "Env \<Rightarrow> World \<Rightarrow> (JsError + unit) \<times> World" where
  "dispose env w = perform env [Fire ServerClose, Fire BrowserClose] w"

text \<open>
  The executor of the promise that \<^verbatim>\<open>runTests\<close> creates. It is an async function
  whose own result nobody reads: when a call in it rejects, the rest does not run and
  the promise stays as it was.
\<close>

definition executor :: "Env \<Rightarrow> string \<Rightarrow> Options \<Rightarrow> World \<Rightarrow> (JsError + unit) \<times> World" where
  "executor env endpoint options w =
     (case openBrowser env endpoint options w of
        (Inl err, w1) \<Rightarrow> (Inl err, w1)
      | (Inr u, w1) \<Rightarrow>
          perform env
            [Fire OnceContextClose,
             Await (ExposeFunction ''codeAutomationLog''),
             Await (ExposeFunction ''codeAutomationExit'')] w1)"

text \<open>
  \<^verbatim>\<open>runTests\<close>; its options always hold a test path. The world returned is the one
  at the moment the function has nothing left to run; its \<open>promise\<close> field is the
  state of the promise the caller got. An error before the promise is created rejects
  what the caller got.
\<close>

definition runTests :: "Env \<Rightarrow> string \<Rightarrow> Options \<Rightarrow> World \<Rightarrow> World" where
  "runTests env testsPath opts w =
     (let options = opts\<lparr>extensionTestsPath := Some testsPath\<rparr> in
      case getBuild env options w of
        (Inl err, w1) \<Rightarrow> e err w1
      | (Inr build, w1) \<Rightarrow>
          (case perform env
                  [Await (RunServer (hostOrDefault options) (portOrDefault options)
                            (runTests_config options build))] w1 of
             (Inl err, w2) \<Rightarrow> e err w2
           | (Inr u, w2) \<Rightarrow>
               snd (executor env
                      (endpointOf (hostOrDefault options) (portOrDefault options)) options w2)))"

section \<open>Handlers\<close>

text \<open>The listener for new pages and the one it puts on each page's close.\<close>

datatype PageEvent = PageCreated | PageClosed

fun onPageEvent :: "PageEvent \<Rightarrow> World \<Rightarrow> World" where
  "onPageEvent PageCreated w = w\<lparr>openPages := openPages w + 1\<rparr>"
| "onPageEvent PageClosed w =
     (let w1 = w\<lparr>openPages := openPages w - 1\<rparr>
      in if openPages w1 = 0 then issue BrowserClose w1 else w1)"

fun pageEvents :: "PageEvent list \<Rightarrow> World \<Rightarrow> World" where
  "pageEvents [] w = w"
| "pageEvents (ev # evs) w = pageEvents evs (onPageEvent ev w)"

text \<open>\<^verbatim>\<open>context.once('close', () => server.close())\<close>\<close>

definition onContextClose :: "World \<Rightarrow> World" where
  "onContextClose w = issue ServerClose w"

definition codeAutomationLog :: "string \<Rightarrow> string list \<Rightarrow> World \<Rightarrow> World" where
  "codeAutomationLog type args w = w\<lparr>console := console w @ [(type, args)]\<rparr>"

text \<open>
  The exit function: the browser's close is awaited inside try/catch, the server is
  closed, and the promise is settled by the code.
\<close>

definition codeAutomationExit :: "Env \<Rightarrow> int \<Rightarrow> World \<Rightarrow> (JsError + unit) \<times> World" where
  "codeAutomationExit env code w =
     (let (r, w1) = perform env [Await BrowserClose] w;
          w2 = (case r of
                  Inl error \<Rightarrow>
                    w1\<lparr>console := console w1 @
                      [(''error'', [''Error when closing browser: '' @ errorToString error])]\<rparr>
                | Inr u \<Rightarrow> w1);
          w3 = issue ServerClose w2
      in (Inr (), if code = 0 then s w3 else e (Error ''Test failed'') w3))"

text \<open>
  What reaches the handlers once they are in place: page events, the context's close
  (its listener runs once), and the page calling an exposed function.
\<close>

datatype Event = Page PageEvent | ContextClosed | CallLog string "string list" | CallExit int

definition exposed :: "Env \<Rightarrow> string \<Rightarrow> World \<Rightarrow> bool" where
  "exposed env name w =
     (ExposeFunction name \<in> set (calls w) \<and> failing env (ExposeFunction name) = None)"

fun deliver :: "Env \<Rightarrow> World \<Rightarrow> Event \<Rightarrow> World" where
  "deliver env w (Page ev) = (if OnPage \<in> set (calls w) then onPageEvent ev w else w)"
| "deliver env w ContextClosed =
     (if OnceContextClose \<in> set (calls w) \<and> \<not> contextCloseFired w
      then onContextClose (w\<lparr>contextCloseFired := True\<rparr>) else w)"
| "deliver env w (CallLog type args) =
     (if exposed env ''codeAutomationLog'' w then codeAutomationLog type args w else w)"
| "deliver env w (CallExit code) =
     (if exposed env ''codeAutomationExit'' w then snd (codeAutomationExit env code w) else w)"

definition session :: "Env \<Rightarrow> World \<Rightarrow> Event list \<Rightarrow> World" where
  "session env w evs = foldl (deliver env) w evs"

section \<open>State of the handles\<close>

text \<open>
  Modelled from the spec: the server handle comes from \<^verbatim>\<open>runServer\<close> in
  \<^verbatim>\<open>server/main\<close>, which is not part of the source at hand. The spec's server
  contract says that \<^verbatim>\<open>handle.close()\<close> is idempotent, so the server is closed
  once \<^verbatim>\<open>close\<close> has been called, however often.
\<close>

definition serverClosed :: "World \<Rightarrow> bool" where
  "serverClosed w = (ServerClose \<in> set (calls w))"

text \<open>
  Modelled from the spec: the browser comes from the automation library; the spec calls
  its close one idempotent operation. The browser is closed once a close was called
  that did not fail.
\<close>

definition browserClosed :: "Env \<Rightarrow> World \<Rightarrow> bool" where
  "browserClosed env w = (BrowserClose \<in> set (calls w) \<and> failing env BrowserClose = None)"

definition browserCloseCalls :: "World \<Rightarrow> nat" where
  "browserCloseCalls w = count_list (calls w) BrowserClose"

text \<open>
  The \<open>i\<close>-th page event (from 0) is a close that brings the number of open pages back
  to zero: as many pages were closed as were created, up to and including it.
\<close>

definition reachesZeroAt :: "PageEvent list \<Rightarrow> nat \<Rightarrow> bool" where
  "reachesZeroAt evs i =
     (evs ! i = PageClosed \<and>
      count_list (take (Suc i) evs) PageCreated = count_list (take (Suc i) evs) PageClosed)"

fun isLaunch :: "Call \<Rightarrow> bool" where
  "isLaunch (Launch b lo) = True"
| "isLaunch c = False"

fun isRunServer :: "Call \<Rightarrow> bool" where
  "isRunServer (RunServer h p cfg) = True"
| "isRunServer c = False"

text \<open>
  The calls of the startup that the source awaits; the others are the listener
  registrations and \<^verbatim>\<open>grantPermissions\<close>.
\<close>

fun awaited :: "Call \<Rightarrow> bool" where
  "awaited (GrantPermissions ps) = False"
| "awaited OnPage = False"
| "awaited OnConsole = False"
| "awaited OnceContextClose = False"
| "awaited c = True"

section \<open>The entry points as straight-line runs\<close>

text \<open>
  Neither entry point branches on the result of a call, so each is one run of steps
  fixed by the environment and the options; the lemmas below prove that.
\<close>

definition open_steps :: "Env \<Rightarrow> Options \<Rightarrow> Step list" where
  "open_steps env options =
     getBuild_steps options
     @ [Await (RunServer (hostOrDefault options) (portOrDefault options)
                 (open_config options (buildOf env options)))]
     @ openBrowser_steps env (endpointOf (hostOrDefault options) (portOrDefault options)) options
     @ [Fire OnceContextClose]"

definition runTests_pre :: "Env \<Rightarrow> Options \<Rightarrow> Step list" where
  "runTests_pre env options =
     getBuild_steps options
     @ [Await (RunServer (hostOrDefault options) (portOrDefault options)
                 (runTests_config options (buildOf env options)))]"

definition runTests_exec :: "Env \<Rightarrow> Options \<Rightarrow> Step list" where
  "runTests_exec env options =
     openBrowser_steps env (endpointOf (hostOrDefault options) (portOrDefault options)) options
     @ [Fire OnceContextClose,
        Await (ExposeFunction ''codeAutomationLog''),
        Await (ExposeFunction ''codeAutomationExit'')]"

definition runTests_steps :: "Env \<Rightarrow> string \<Rightarrow> Options \<Rightarrow> Step list" where
  "runTests_steps env testsPath opts =
     runTests_pre env (opts\<lparr>extensionTestsPath := Some testsPath\<rparr>)
     @ runTests_exec env (opts\<lparr>extensionTestsPath := Some testsPath\<rparr>)"

section \<open>Concrete environments and options\<close>

definition options0 :: Options where
  "options0 =
     \<lparr> browserType = chromium, extensionDevelopmentPath = None, extensionTestsPath = None,
       quality = None, version = None, devTools = None, headless = None,
       hideServerLog = None, waitForDebugger = None, folderPath = None, folderUri = None,
       permissions = None, extensionPaths = None, vsCodeDevPath = Some ''/vscode'',
       verbose = None, port = None, host = None \<rparr>"

definition env0 :: Env where
  "env0 = \<lparr> platform = ''linux'', failing = (\<lambda>c. None),
            staticBuild = (\<lambda>q. q), existingPage = False \<rparr>"

definition envPortInUse :: Env where
  "envPortInUse =
     env0\<lparr>failing := (\<lambda>c. if isRunServer c then Some (Error ''EADDRINUSE'') else None)\<rparr>"

definition envGotoFails :: Env where
  "envGotoFails =
     env0\<lparr>failing := (\<lambda>c. if c = Goto (endpointOf ''localhost'' 3000)
                           then Some (Error ''ERR_CONNECTION_REFUSED'') else None)\<rparr>"

definition envCloseFails :: Env where
  "envCloseFails =
     env0\<lparr>failing := (\<lambda>c. if c = BrowserClose then Some (Error ''closed'') else None)\<rparr>"

definition optionsBogus :: Options where
  "optionsBogus = options0\<lparr>permissions := Some [''bogus'']\<rparr>"

definition envGrantFails :: Env where
  "envGrantFails =
     env0\<lparr>failing := (\<lambda>c. if c = GrantPermissions [''bogus'']
                           then Some (Error ''Unknown permission: bogus'') else None)\<rparr>"

section \<open>Runs of calls\<close>

declare showNat.simps [simp del]

lemma perform_eq:
  "perform env ss w = (outcome env ss, w\<lparr>calls := calls w @ issued env ss\<rparr>)"
  by (induction env ss w rule: perform.induct) (simp_all add: issue_def split: option.splits)

lemma outcome_append:
  "outcome env (xs @ ys) = (case outcome env xs of Inl err \<Rightarrow> Inl err | Inr u \<Rightarrow> outcome env ys)"
  by (induction env xs rule: outcome.induct) (simp_all split: option.splits)

lemma issued_append:
  "issued env (xs @ ys) =
     issued env xs @ (case outcome env xs of Inl err \<Rightarrow> [] | Inr u \<Rightarrow> issued env ys)"
  by (induction env xs rule: issued.induct) (simp_all split: option.splits)

lemma issued_prefix: "\<exists>zs. map callOf ss = issued env ss @ zs"
  by (induction env ss rule: issued.induct) (auto split: option.splits)

lemma issued_subset: "set (issued env ss) \<subseteq> set (map callOf ss)"
proof -
  obtain zs where "map callOf ss = issued env ss @ zs"
    using issued_prefix by blast
  then show ?thesis by simp
qed

lemma issued_distinct: "distinct (map callOf ss) \<Longrightarrow> distinct (issued env ss)"
proof -
  assume d: "distinct (map callOf ss)"
  obtain zs where "map callOf ss = issued env ss @ zs"
    using issued_prefix by blast
  with d show ?thesis by simp
qed

lemma outcome_Inl_last:
  "outcome env ss = Inl err \<Longrightarrow>
     issued env ss \<noteq> [] \<and> failing env (last (issued env ss)) = Some err"
  by (induction env ss rule: outcome.induct) (auto split: option.splits)

lemma issued_before:
  "b \<in> set (issued env ss) \<Longrightarrow> st \<in> set (takeWhile (\<lambda>x. callOf x \<noteq> b) ss) \<Longrightarrow>
     precedes (callOf st) b (issued env ss) \<and> (\<forall>c. st = Await c \<longrightarrow> failing env c = None)"
  by (induction env ss rule: issued.induct)
     (auto simp: precedes_def split: option.splits if_splits)

section \<open>The entry points are straight-line runs\<close>

lemma getBuild_eq:
  "getBuild env options w =
     ((case outcome env (getBuild_steps options) of
         Inl err \<Rightarrow> Inl err | Inr u \<Rightarrow> Inr (buildOf env options)),
      w\<lparr>calls := calls w @ issued env (getBuild_steps options)\<rparr>)"
  by (simp add: getBuild_def perform_eq split: sum.splits)

lemma open_session_eq:
  "open_session env options w =
     (outcome env (open_steps env options),
      w\<lparr>calls := calls w @ issued env (open_steps env options)\<rparr>)"
  by (simp add: open_session_def open_steps_def openBrowser_def getBuild_eq perform_eq
        outcome_append issued_append split: sum.splits option.splits)

lemma runTests_calls:
  "calls (runTests env testsPath opts w) = calls w @ issued env (runTests_steps env testsPath opts)"
  by (simp add: runTests_def runTests_steps_def runTests_pre_def runTests_exec_def Let_def
        executor_def openBrowser_def getBuild_eq perform_eq outcome_append issued_append e_def
        split: sum.splits option.splits)

lemma runTests_promise:
  "promise (runTests env testsPath opts w) =
     (case outcome env (runTests_pre env (opts\<lparr>extensionTestsPath := Some testsPath\<rparr>)) of
        Inl err \<Rightarrow> (if promise w = Pending then Rejected err else promise w)
      | Inr u \<Rightarrow> promise w)"
  by (simp add: runTests_def runTests_pre_def Let_def
        executor_def openBrowser_def getBuild_eq perform_eq outcome_append issued_append e_def
        split: sum.splits option.splits)

section \<open>Facts about the steps\<close>

lemma issued_mem: "c \<in> set (issued env ss) \<Longrightarrow> c \<in> set (map callOf ss)"
  using issued_subset by blast

lemma getBuild_steps_cases:
  "x \<in> set (getBuild_steps options) \<Longrightarrow> \<exists>q. callOf x = DownloadAndUnzipVSCode q"
  by (auto simp: getBuild_steps_def split: if_splits)

lemma openBrowser_steps_cases:
  "x \<in> set (openBrowser_steps env ep options) \<Longrightarrow>
     (\<exists>b lo. callOf x = Launch b lo) \<or> callOf x = NewContext
     \<or> (\<exists>ps. callOf x = GrantPermissions ps) \<or> callOf x = OnPage \<or> callOf x = NewPage
     \<or> callOf x = WaitForFunction \<or> callOf x = OnConsole
     \<or> (\<exists>a b. callOf x = SetViewportSize a b) \<or> callOf x = Goto ep"
  by (auto simp: openBrowser_steps_def split: option.splits if_splits)

lemma open_steps_distinct: "distinct (map callOf (open_steps env options))"
  by (simp add: open_steps_def getBuild_steps_def openBrowser_steps_def split: option.splits)

lemma runTests_steps_distinct: "distinct (map callOf (runTests_steps env testsPath options))"
  by (simp add: runTests_steps_def runTests_pre_def runTests_exec_def getBuild_steps_def
        openBrowser_steps_def split: option.splits)

lemma open_steps_no_close:
  "ServerClose \<notin> set (map callOf (open_steps env options)) \<and>
   BrowserClose \<notin> set (map callOf (open_steps env options)) \<and>
   CloseContext \<notin> set (map callOf (open_steps env options)) \<and>
   ExposeFunction n \<notin> set (map callOf (open_steps env options))"
  by (auto simp: open_steps_def dest!: getBuild_steps_cases openBrowser_steps_cases)

lemma runTests_steps_no_close:
  "ServerClose \<notin> set (map callOf (runTests_steps env testsPath options)) \<and>
   BrowserClose \<notin> set (map callOf (runTests_steps env testsPath options)) \<and>
   CloseContext \<notin> set (map callOf (runTests_steps env testsPath options))"
  by (auto simp: runTests_steps_def runTests_pre_def runTests_exec_def
        dest!: getBuild_steps_cases openBrowser_steps_cases)

lemma mem_takeWhile_append:
  "a \<in> set xs \<Longrightarrow> (\<And>x. x \<in> set xs \<Longrightarrow> P x) \<Longrightarrow> a \<in> set (takeWhile P (xs @ ys))"
  by (induction xs) auto

lemma openBrowser_steps_last:
  "Await (Goto ep) \<in> set (openBrowser_steps env ep options)"
  by (simp add: openBrowser_steps_def)

lemma runTests_steps_split:
  "runTests_steps env testsPath options =
     (runTests_pre env (options\<lparr>extensionTestsPath := Some testsPath\<rparr>)
      @ openBrowser_steps env (endpointOf (hostOrDefault options) (portOrDefault options))
          (options\<lparr>extensionTestsPath := Some testsPath\<rparr>)
      @ [Fire OnceContextClose])
     @ [Await (ExposeFunction ''codeAutomationLog''), Await (ExposeFunction ''codeAutomationExit'')]"
  by (simp add: runTests_steps_def runTests_exec_def hostOrDefault_def portOrDefault_def)

lemma before_bridge_no_expose:
  assumes "x \<in> set (runTests_pre env o' @ openBrowser_steps env ep o' @ [Fire OnceContextClose])"
  shows "callOf x \<noteq> ExposeFunction n"
  using assms
  by (auto simp: runTests_pre_def dest!: getBuild_steps_cases openBrowser_steps_cases)

lemma goto_before_expose:
  assumes "n = ''codeAutomationLog'' \<or> n = ''codeAutomationExit''"
  shows "Await (Goto (endpointOf (hostOrDefault options) (portOrDefault options)))
           \<in> set (takeWhile (\<lambda>x. callOf x \<noteq> ExposeFunction n) (runTests_steps env testsPath options))"
  unfolding runTests_steps_split
proof (rule mem_takeWhile_append)
  show "Await (Goto (endpointOf (hostOrDefault options) (portOrDefault options)))
      \<in> set (runTests_pre env (options\<lparr>extensionTestsPath := Some testsPath\<rparr>)
      @ openBrowser_steps env (endpointOf (hostOrDefault options) (portOrDefault options))
          (options\<lparr>extensionTestsPath := Some testsPath\<rparr>)
      @ [Fire OnceContextClose])"
    by (simp add: openBrowser_steps_last)
next
  fix x
  assume "x \<in> set (runTests_pre env (options\<lparr>extensionTestsPath := Some testsPath\<rparr>)
      @ openBrowser_steps env (endpointOf (hostOrDefault options) (portOrDefault options))
          (options\<lparr>extensionTestsPath := Some testsPath\<rparr>)
      @ [Fire OnceContextClose])"
  then show "callOf x \<noteq> ExposeFunction n" by (rule before_bridge_no_expose)
qed

lemma log_before_exit:
  "Await (ExposeFunction ''codeAutomationLog'')
     \<in> set (takeWhile (\<lambda>x. callOf x \<noteq> ExposeFunction ''codeAutomationExit'')
              (runTests_steps env testsPath options))"
proof -
  let ?o = "options\<lparr>extensionTestsPath := Some testsPath\<rparr>"
  let ?A = "runTests_pre env ?o
      @ openBrowser_steps env (endpointOf (hostOrDefault options) (portOrDefault options)) ?o
      @ [Fire OnceContextClose]"
  have steps: "runTests_steps env testsPath options =
      (?A @ [Await (ExposeFunction ''codeAutomationLog'')]) @ [Await (ExposeFunction ''codeAutomationExit'')]"
    by (simp add: runTests_steps_split)
  have none: "callOf x \<noteq> ExposeFunction ''codeAutomationExit''"
    if "x \<in> set (?A @ [Await (ExposeFunction ''codeAutomationLog'')])" for x
  proof (cases "x \<in> set ?A")
    case True
    then show ?thesis by (rule before_bridge_no_expose)
  next
    case False
    with that have "x = Await (ExposeFunction ''codeAutomationLog'')" by simp
    then show ?thesis by simp
  qed
  have mem: "Await (ExposeFunction ''codeAutomationLog'')
      \<in> set (?A @ [Await (ExposeFunction ''codeAutomationLog'')])" by simp
  show ?thesis unfolding steps using mem none by (rule mem_takeWhile_append)
qed

section \<open>Page events\<close>

lemma pageEvents_snoc: "pageEvents (evs @ [ev]) w = onPageEvent ev (pageEvents evs w)"
  by (induction evs arbitrary: w) simp_all

lemma openPages_step:
  "openPages (onPageEvent ev w) = openPages w + (if ev = PageCreated then 1 else - 1)"
  by (cases ev) (simp_all add: Let_def issue_def)

lemma openPages_pageEvents:
  "openPages (pageEvents evs w) =
     openPages w + int (count_list evs PageCreated) - int (count_list evs PageClosed)"
proof (induction evs arbitrary: w)
  case Nil
  show ?case by simp
next
  case (Cons ev evs)
  show ?case by (cases ev) (simp_all add: Cons.IH Let_def issue_def)
qed

lemma browserCloseCalls_step:
  "browserCloseCalls (onPageEvent ev w) =
     browserCloseCalls w + (if ev = PageClosed \<and> openPages w = 1 then 1 else 0)"
  by (cases ev) (simp_all add: browserCloseCalls_def Let_def issue_def)

lemma close_calls_count:
  "browserCloseCalls (pageEvents evs w0) = length (filter (reachesZeroAt evs) [0..<length evs])"
proof (induction evs rule: rev_induct)
  case Nil
  show ?case by (simp add: browserCloseCalls_def w0_def)
next
  case (snoc ev evs)
  have old: "filter (reachesZeroAt (evs @ [ev])) [0..<length evs] =
             filter (reachesZeroAt evs) [0..<length evs]"
    by (rule filter_cong [OF refl]) (auto simp: reachesZeroAt_def nth_append)
  have new: "reachesZeroAt (evs @ [ev]) (length evs) =
             (ev = PageClosed \<and> openPages (pageEvents evs w0) = 1)"
    by (cases ev) (auto simp: reachesZeroAt_def openPages_pageEvents w0_def)
  show ?case
    using snoc.IH by (simp add: pageEvents_snoc browserCloseCalls_step old new)
qed

lemma first_zero:
  "(\<forall>k. 0 < k \<and> k < length evs \<longrightarrow> 0 < openPages (pageEvents (take k evs) w0)) \<Longrightarrow>
     browserCloseCalls (pageEvents evs w0) =
       (if evs \<noteq> [] \<and> openPages (pageEvents evs w0) = 0 then 1 else 0)"
proof (induction evs rule: rev_induct)
  case Nil
  show ?case by (simp add: browserCloseCalls_def w0_def)
next
  case (snoc ev evs)
  have pre: "\<forall>k. 0 < k \<and> k < length evs \<longrightarrow> 0 < openPages (pageEvents (take k evs) w0)"
  proof (intro allI impI)
    fix k assume k: "0 < k \<and> k < length evs"
    then have "0 < openPages (pageEvents (take k (evs @ [ev])) w0)"
      using snoc.prems by simp
    with k show "0 < openPages (pageEvents (take k evs) w0)" by simp
  qed
  have ih: "browserCloseCalls (pageEvents evs w0) =
              (if evs \<noteq> [] \<and> openPages (pageEvents evs w0) = 0 then 1 else 0)"
    using snoc.IH [OF pre] .
  have pos: "0 \<le> openPages (pageEvents evs w0) \<and> (evs \<noteq> [] \<longrightarrow> 0 < openPages (pageEvents evs w0))"
  proof (cases "evs = []")
    case True
    then show ?thesis by (simp add: w0_def)
  next
    case False
    then have "0 < length evs \<and> length evs < length (evs @ [ev])" by simp
    then have "0 < openPages (pageEvents (take (length evs) (evs @ [ev])) w0)"
      using snoc.prems by blast
    then show ?thesis by simp
  qed
  have prev: "browserCloseCalls (pageEvents evs w0) = 0"
    using ih pos by auto
  have cc: "browserCloseCalls (pageEvents (evs @ [ev]) w0) =
      (if ev = PageClosed \<and> openPages (pageEvents evs w0) = 1 then 1 else 0)"
    by (simp add: pageEvents_snoc browserCloseCalls_step prev)
  have op: "openPages (pageEvents (evs @ [ev]) w0) =
      openPages (pageEvents evs w0) + (if ev = PageCreated then 1 else - 1)"
    by (simp only: pageEvents_snoc openPages_step)
  show ?case
    unfolding cc op using pos by (cases ev) auto
qed

section \<open>The promise\<close>

lemma exit_settles: "promise (snd (codeAutomationExit env code w)) \<noteq> Pending"
  by (simp add: codeAutomationExit_def perform_eq issue_def s_def e_def Let_def
        split: option.splits)

lemma deliver_settled: "promise w \<noteq> Pending \<Longrightarrow> promise (deliver env w ev) = promise w"
proof (cases ev)
  case (Page pe)
  then show ?thesis by (cases pe) (simp_all add: Let_def issue_def)
next
  case ContextClosed
  then show ?thesis by (simp add: onContextClose_def issue_def)
next
  case (CallLog t args)
  then show ?thesis by (simp add: codeAutomationLog_def)
next
  case (CallExit code)
  assume "promise w \<noteq> Pending"
  with CallExit show ?thesis
    by (simp add: codeAutomationExit_def perform_eq issue_def s_def e_def Let_def
          split: option.splits)
qed

lemma session_settled: "promise w \<noteq> Pending \<Longrightarrow> promise (session env w evs) = promise w"
  unfolding session_def
  by (induction evs arbitrary: w) (simp_all add: deliver_settled)

lemma exposed_pending:
  assumes "exposed env n (runTests env testsPath options w0)"
  shows "promise (runTests env testsPath options w0) = Pending"
proof (cases "outcome env (runTests_pre env (options\<lparr>extensionTestsPath := Some testsPath\<rparr>))")
  case (Inr u)
  then show ?thesis by (simp add: runTests_promise w0_def)
next
  case (Inl err)
  let ?o = "options\<lparr>extensionTestsPath := Some testsPath\<rparr>"
  have "calls (runTests env testsPath options w0) = issued env (runTests_pre env ?o)"
    using Inl by (simp add: runTests_calls runTests_steps_def issued_append w0_def)
  then have "ExposeFunction n \<in> set (issued env (runTests_pre env ?o))"
    using assms by (simp add: exposed_def)
  then have "ExposeFunction n \<in> set (map callOf (runTests_pre env ?o))"
    using issued_subset by blast
  then have False
    by (auto simp: runTests_pre_def dest!: getBuild_steps_cases)
  then show ?thesis ..
qed

section \<open>A failing startup call\<close>

lemma issued_failing:
  "distinct (map callOf ss) \<Longrightarrow> Await c \<in> set ss \<Longrightarrow> c \<in> set (issued env ss) \<Longrightarrow>
     failing env c = Some err \<Longrightarrow> outcome env ss = Inl err \<and> last (issued env ss) = c"
proof (induction env ss rule: issued.induct)
  case (1 env)
  then show ?case by simp
next
  case (2 env a ss)
  from "2.prems"(2) have aw: "Await c \<in> set ss" by simp
  then have "callOf (Await c) \<in> callOf ` set ss" by (rule imageI)
  then have "c \<in> set (map callOf ss)" by simp
  with "2.prems"(1) have "c \<noteq> a" by auto
  with "2.prems"(3) have ci: "c \<in> set (issued env ss)" by simp
  from "2.prems"(1) have d: "distinct (map callOf ss)" by simp
  from "2.IH" [OF d aw ci "2.prems"(4)]
  have ih: "outcome env ss = Inl err \<and> last (issued env ss) = c" .
  from ci have "issued env ss \<noteq> []" by auto
  with ih show ?case by simp
next
  case (3 env a ss)
  show ?case
  proof (cases "a = c")
    case True
    with "3.prems"(4) show ?thesis by simp
  next
    case False
    with "3.prems"(2) have aw: "Await c \<in> set ss" by simp
    from False "3.prems"(3) have n: "failing env a = None" and ci: "c \<in> set (issued env ss)"
      by (auto split: option.splits)
    from "3.prems"(1) have d: "distinct (map callOf ss)" by simp
    from "3.IH" [OF n d aw ci "3.prems"(4)]
    have ih: "outcome env ss = Inl err \<and> last (issued env ss) = c" .
    from ci have "issued env ss \<noteq> []" by auto
    with ih n show ?thesis by simp
  qed
qed

lemma open_steps_awaited:
  "x \<in> set (open_steps env options) \<Longrightarrow> awaited (callOf x) \<Longrightarrow> x = Await (callOf x)"
  by (auto simp: open_steps_def getBuild_steps_def openBrowser_steps_def
        split: option.splits if_splits)

lemma runTests_steps_awaited:
  "x \<in> set (runTests_steps env testsPath options) \<Longrightarrow> awaited (callOf x) \<Longrightarrow> x = Await (callOf x)"
  by (auto simp: runTests_steps_def runTests_pre_def runTests_exec_def getBuild_steps_def
        openBrowser_steps_def split: option.splits if_splits)

lemma failing_step_open:
  assumes "c \<in> set (calls (snd (open_session env options w0)))" "awaited c" "failing env c = Some err"
  shows "fst (open_session env options w0) = Inl err \<and> last (calls (snd (open_session env options w0))) = c"
proof -
  have ci: "c \<in> set (issued env (open_steps env options))"
    using assms(1) by (simp add: open_session_eq w0_def)
  then have "c \<in> set (map callOf (open_steps env options))" by (rule issued_mem)
  then obtain x where x: "x \<in> set (open_steps env options)" "callOf x = c" by auto
  with assms(2) open_steps_awaited [of x env options]
  have "Await c \<in> set (open_steps env options)" by simp
  from issued_failing [OF open_steps_distinct this ci assms(3)]
  show ?thesis by (simp add: open_session_eq w0_def)
qed

lemma failing_step_runTests:
  assumes "c \<in> set (calls (runTests env testsPath options w0))" "awaited c" "failing env c = Some err"
  shows "last (calls (runTests env testsPath options w0)) = c"
proof -
  have ci: "c \<in> set (issued env (runTests_steps env testsPath options))"
    using assms(1) by (simp add: runTests_calls w0_def)
  then have "c \<in> set (map callOf (runTests_steps env testsPath options))" by (rule issued_mem)
  then obtain x where x: "x \<in> set (runTests_steps env testsPath options)" "callOf x = c" by auto
  with assms(2) runTests_steps_awaited [of x env testsPath options]
  have "Await c \<in> set (runTests_steps env testsPath options)" by simp
  from issued_failing [OF runTests_steps_distinct this ci assms(3)]
  show ?thesis by (simp add: runTests_calls w0_def)
qed

lemma startup_calls:
  "(\<forall>err. fst (open_session env options w0) = Inl err \<longrightarrow>
       calls (snd (open_session env options w0)) \<noteq> []
       \<and> failing env (last (calls (snd (open_session env options w0)))) = Some err)
   \<and> distinct (calls (snd (open_session env options w0)))
   \<and> ServerClose \<notin> set (calls (snd (open_session env options w0)))
   \<and> BrowserClose \<notin> set (calls (snd (open_session env options w0)))
   \<and> CloseContext \<notin> set (calls (snd (open_session env options w0)))
   \<and> (\<forall>err. promise (runTests env testsPath options w0) = Rejected err \<longrightarrow>
       calls (runTests env testsPath options w0) \<noteq> []
       \<and> failing env (last (calls (runTests env testsPath options w0))) = Some err)
   \<and> distinct (calls (runTests env testsPath options w0))
   \<and> ServerClose \<notin> set (calls (runTests env testsPath options w0))
   \<and> BrowserClose \<notin> set (calls (runTests env testsPath options w0))
   \<and> CloseContext \<notin> set (calls (runTests env testsPath options w0))"
proof -
  let ?o = "options\<lparr>extensionTestsPath := Some testsPath\<rparr>"
  have a: "calls (snd (open_session env options w0)) \<noteq> []
       \<and> failing env (last (calls (snd (open_session env options w0)))) = Some err"
    if "fst (open_session env options w0) = Inl err" for err
    using that outcome_Inl_last [of env "open_steps env options" err]
    by (simp add: open_session_eq w0_def)
  have b: "distinct (calls (snd (open_session env options w0)))"
    using issued_distinct [OF open_steps_distinct] by (simp add: open_session_eq w0_def)
  have c: "ServerClose \<notin> set (calls (snd (open_session env options w0)))
       \<and> BrowserClose \<notin> set (calls (snd (open_session env options w0)))
       \<and> CloseContext \<notin> set (calls (snd (open_session env options w0)))"
    using issued_mem [of _ env "open_steps env options"] open_steps_no_close [of env options]
    by (simp add: open_session_eq w0_def) blast
  have d: "calls (runTests env testsPath options w0) \<noteq> []
       \<and> failing env (last (calls (runTests env testsPath options w0))) = Some err"
    if "promise (runTests env testsPath options w0) = Rejected err" for err
  proof (cases "outcome env (runTests_pre env ?o)")
    case (Inr u)
    then show ?thesis using that by (simp add: runTests_promise w0_def)
  next
    case (Inl err')
    then have "err' = err" using that by (simp add: runTests_promise w0_def)
    then show ?thesis
      using Inl outcome_Inl_last [of env "runTests_pre env ?o" err]
      by (simp add: runTests_calls runTests_steps_def issued_append w0_def)
  qed
  have e': "distinct (calls (runTests env testsPath options w0))"
    using issued_distinct [OF runTests_steps_distinct] by (simp add: runTests_calls w0_def)
  have f: "ServerClose \<notin> set (calls (runTests env testsPath options w0))
       \<and> BrowserClose \<notin> set (calls (runTests env testsPath options w0))
       \<and> CloseContext \<notin> set (calls (runTests env testsPath options w0))"
    using issued_mem [of _ env "runTests_steps env testsPath options"]
      runTests_steps_no_close [of env testsPath options]
    by (simp add: runTests_calls w0_def) blast
  show ?thesis using a b c d e' f by blast
qed

section \<open>A failing server start\<close>

lemma runServer_not_launch: "isRunServer r \<Longrightarrow> \<not> isLaunch r"
  by (cases r) simp_all

lemma server_step:
  assumes gb: "\<And>x. x \<in> set (issued env A) \<Longrightarrow> \<not> isRunServer x \<and> \<not> isLaunch x"
    and rest: "\<And>x. x \<in> set (issued env B) \<Longrightarrow> \<not> isRunServer x"
    and c: "c \<in> set (issued env (A @ [Await r] @ B))" "isRunServer c" "failing env c = Some err"
  shows "outcome env (A @ [Await r] @ B) = Inl err \<and> outcome env (A @ [Await r]) = Inl err
       \<and> filter isLaunch (issued env (A @ [Await r] @ B)) = []
       \<and> last (issued env (A @ [Await r] @ B)) = c"
proof (cases "outcome env A")
  case (Inl e1)
  then have "issued env (A @ [Await r] @ B) = issued env A"
    by (simp add: issued_append)
  with c(1) have "c \<in> set (issued env A)" by simp
  with gb c(2) show ?thesis by blast
next
  case (Inr u)
  show ?thesis
  proof (cases "failing env r")
    case None
    then have "issued env (A @ [Await r] @ B) = issued env A @ r # issued env B"
      using Inr by (simp add: issued_append)
    with c(1) have "c \<in> set (issued env A) \<or> c = r \<or> c \<in> set (issued env B)" by auto
    with gb rest c(2) c(3) None show ?thesis by auto
  next
    case (Some e2)
    then have iss: "issued env (A @ [Await r] @ B) = issued env A @ [r]"
      using Inr by (simp add: issued_append)
    with c(1) have "c \<in> set (issued env A) \<or> c = r" by auto
    with gb c(2) have cr: "c = r" by blast
    with c(3) Some have e2: "e2 = err" by simp
    have nl: "\<not> isLaunch r" using c(2) cr by (simp add: runServer_not_launch)
    have fl: "filter isLaunch (issued env A) = []"
      using gb by (simp add: filter_empty_conv)
    have iss': "issued env (A @ Await r # B) = issued env A @ [r]"
      using iss by simp
    show ?thesis
      using Inr Some e2 cr nl fl by (simp add: iss' outcome_append)
  qed
qed

lemma runTests_server_failure:
  assumes "c \<in> set (calls (runTests env testsPath options w0))" "isRunServer c"
    "failing env c = Some err"
  shows "promise (runTests env testsPath options w0) = Rejected err"
proof -
  let ?o = "options\<lparr>extensionTestsPath := Some testsPath\<rparr>"
  let ?ep = "endpointOf (hostOrDefault ?o) (portOrDefault ?o)"
  let ?ex = "runTests_exec env ?o"
  let ?r = "RunServer (hostOrDefault ?o) (portOrDefault ?o) (runTests_config ?o (buildOf env ?o))"
  have gb: "\<not> isRunServer x \<and> \<not> isLaunch x" if "x \<in> set (issued env (getBuild_steps ?o))" for x
    using issued_mem [OF that] by (auto dest!: getBuild_steps_cases)
  have ex: "\<not> isRunServer x" if "x \<in> set (issued env ?ex)" for x
    using issued_mem [OF that] by (auto simp: runTests_exec_def dest!: openBrowser_steps_cases)
  have sr: "runTests_steps env testsPath options = getBuild_steps ?o @ [Await ?r] @ ?ex"
    by (simp add: runTests_steps_def runTests_pre_def)
  have sp: "runTests_pre env ?o = getBuild_steps ?o @ [Await ?r]"
    by (simp add: runTests_pre_def)
  have "c \<in> set (issued env (getBuild_steps ?o @ [Await ?r] @ ?ex))"
    using assms(1) by (simp add: runTests_calls w0_def sr)
  from server_step [OF gb ex this assms(2) assms(3)]
  show ?thesis by (simp add: runTests_promise w0_def sp)
qed

section \<open>Evaluation at concrete inputs\<close>

lemmas eval_defs = open_steps_def runTests_steps_def runTests_pre_def runTests_exec_def
  getBuild_steps_def openBrowser_steps_def hostOrDefault_def portOrDefault_def
  truthyString_def truthyNumber_def buildOf_def launchArgs_def launchHeadless_def
  options0_def w0_def

lemma runTests_env0_calls:
  "calls (runTests env0 ''/tests'' options0 w0) =
     [RunServer ''localhost'' 3000
        (runTests_config (options0\<lparr>extensionTestsPath := Some ''/tests''\<rparr>) (Sources ''/vscode'')),
      Launch chromium \<lparr> lo_headless = True, lo_args = [''--no-sandbox''], lo_devtools = None \<rparr>,
      NewContext, OnPage, NewPage, SetViewportSize width height,
      Goto (endpointOf ''localhost'' 3000), OnceContextClose,
      ExposeFunction ''codeAutomationLog'', ExposeFunction ''codeAutomationExit'']"
  by (simp add: runTests_calls eval_defs env0_def)

lemma runTests_env0_exposed:
  "exposed env0 ''codeAutomationExit'' (runTests env0 ''/tests'' options0 w0)"
  by (simp add: exposed_def runTests_env0_calls) (simp add: env0_def)

lemma open_env0_calls:
  "calls (snd (open_session env0 options0 w0)) =
     [RunServer ''localhost'' 3000 (open_config options0 (Sources ''/vscode'')),
      Launch chromium \<lparr> lo_headless = False, lo_args = [''--no-sandbox''], lo_devtools = None \<rparr>,
      NewContext, OnPage, NewPage, SetViewportSize width height,
      Goto (endpointOf ''localhost'' 3000), OnceContextClose]"
  by (simp add: open_session_eq eval_defs env0_def)

lemma open_goto_fails:
  "fst (open_session envGotoFails options0 w0) = Inl (Error ''ERR_CONNECTION_REFUSED'')
   \<and> calls (snd (open_session envGotoFails options0 w0)) =
     [RunServer ''localhost'' 3000 (open_config options0 (Sources ''/vscode'')),
      Launch chromium \<lparr> lo_headless = False, lo_args = [''--no-sandbox''], lo_devtools = None \<rparr>,
      NewContext, OnPage, NewPage, SetViewportSize width height,
      Goto (endpointOf ''localhost'' 3000)]"
  by (simp add: open_session_eq eval_defs envGotoFails_def env0_def)

lemma open_port_in_use:
  "fst (open_session envPortInUse options0 w0) = Inl (Error ''EADDRINUSE'')
   \<and> calls (snd (open_session envPortInUse options0 w0)) =
     [RunServer ''localhost'' 3000 (open_config options0 (Sources ''/vscode''))]"
  by (simp add: open_session_eq eval_defs envPortInUse_def env0_def)

lemma runTests_port_in_use:
  "promise (runTests envPortInUse ''/tests'' options0 w0) = Rejected (Error ''EADDRINUSE'')
   \<and> calls (runTests envPortInUse ''/tests'' options0 w0) =
     [RunServer ''localhost'' 3000
        (runTests_config (options0\<lparr>extensionTestsPath := Some ''/tests''\<rparr>) (Sources ''/vscode''))]"
  by (simp add: runTests_calls runTests_promise eval_defs envPortInUse_def env0_def)

lemma open_grant_fails:
  "failing envGrantFails (GrantPermissions [''bogus'']) = Some (Error ''Unknown permission: bogus'')
   \<and> fst (open_session envGrantFails optionsBogus w0) = Inr ()
   \<and> calls (snd (open_session envGrantFails optionsBogus w0)) =
     [RunServer ''localhost'' 3000 (open_config optionsBogus (Sources ''/vscode'')),
      Launch chromium \<lparr> lo_headless = False, lo_args = [''--no-sandbox''], lo_devtools = None \<rparr>,
      NewContext, GrantPermissions [''bogus''], OnPage, NewPage, SetViewportSize width height,
      Goto (endpointOf ''localhost'' 3000), OnceContextClose]"
  by (simp add: open_session_eq eval_defs envGrantFails_def env0_def optionsBogus_def)

lemma exit_after_runTests:
  assumes "exposed env ''codeAutomationExit'' (runTests env testsPath options w0)"
  shows "promise (deliver env (runTests env testsPath options w0) (CallExit code)) =
           (if code = 0 then Fulfilled else Rejected (Error ''Test failed''))"
  using assms exposed_pending [OF assms]
  by (simp add: codeAutomationExit_def perform_eq issue_def s_def e_def Let_def
        split: option.splits)

lemma exit_promise:
  "promise (snd (codeAutomationExit env code w)) =
     (if promise w = Pending
      then (if code = 0 then Fulfilled else Rejected (Error ''Test failed''))
      else promise w)"
  by (simp add: codeAutomationExit_def perform_eq issue_def s_def e_def Let_def
        split: option.splits)

section \<open>The claims\<close>

text \<open>
  C1, as the code has it. Once \<^verbatim>\<open>runTests\<close> has installed the exit function, the
  page's exit call settles the promise that \<^verbatim>\<open>runTests\<close> returned: it is fulfilled
  when the code is 0, and for every other code it is rejected with
  \<^verbatim>\<open>new Error('Test failed')\<close>, one and the same error whatever the code. So the
  promise is fulfilled if and only if the code is 0, and the rejection does not carry
  the code.
\<close>

theorem exit_code_decides_outcome:
  assumes "exposed env ''codeAutomationExit'' (runTests env testsPath options w0)"
  shows "promise (deliver env (runTests env testsPath options w0) (CallExit code)) =
           (if code = 0 then Fulfilled else Rejected (Error ''Test failed''))"
  using assms exposed_pending [OF assms]
  by (simp add: codeAutomationExit_def perform_eq issue_def s_def e_def Let_def
        split: option.splits)

text \<open>
  The hypothesis holds in an environment where no call fails: the exit function is
  installed, code 0 fulfils the promise and code 3 rejects it.
\<close>

theorem exit_code_decides_outcome_witness:
  "exposed env0 ''codeAutomationExit'' (runTests env0 ''/tests'' options0 w0)
   \<and> promise (deliver env0 (runTests env0 ''/tests'' options0 w0) (CallExit 0)) = Fulfilled
   \<and> promise (deliver env0 (runTests env0 ''/tests'' options0 w0) (CallExit 3)) =
       Rejected (Error ''Test failed'')"
proof -
  have h: "exposed env0 ''codeAutomationExit'' (runTests env0 ''/tests'' options0 w0)"
    by (rule runTests_env0_exposed)
  show ?thesis
    using h exit_code_decides_outcome [OF h, where code = 0]
      exit_code_decides_outcome [OF h, where code = 3]
    by simp
qed

text \<open>
  Against C1 as stated: the exit codes 1 and 2 reject the promise with the same error,
  whose only content is the message \<^verbatim>\<open>Test failed\<close>; no exit code is carried.
\<close>

theorem exit_code_not_carried:
  "promise (deliver env0 (runTests env0 ''/tests'' options0 w0) (CallExit 1)) =
     Rejected (Error ''Test failed'')
   \<and> promise (deliver env0 (runTests env0 ''/tests'' options0 w0) (CallExit 2)) =
     Rejected (Error ''Test failed'')"
proof -
  have n1: "(if (1::int) = 0 then Fulfilled else Rejected (Error ''Test failed'')) =
      Rejected (Error ''Test failed'')"
    by simp
  have n2: "(if (2::int) = 0 then Fulfilled else Rejected (Error ''Test failed'')) =
      Rejected (Error ''Test failed'')"
    by simp
  have a: "promise (deliver env0 (runTests env0 ''/tests'' options0 w0) (CallExit 1)) =
      Rejected (Error ''Test failed'')"
    using exit_after_runTests [OF runTests_env0_exposed, where code = 1] n1
    by (rule trans)
  have b: "promise (deliver env0 (runTests env0 ''/tests'' options0 w0) (CallExit 2)) =
      Rejected (Error ''Test failed'')"
    using exit_after_runTests [OF runTests_env0_exposed, where code = 2] n2
    by (rule trans)
  show ?thesis using a b by (rule conjI)
qed

text \<open>
  C2, as the code has it. \<^verbatim>\<open>openBrowser\<close> navigates the first page as its last
  step, and \<^verbatim>\<open>runTests\<close> exposes the two functions only after
  \<^verbatim>\<open>openBrowser\<close> has returned. So whenever \<^verbatim>\<open>runTests\<close> installs
  \<^verbatim>\<open>codeAutomationLog\<close> or \<^verbatim>\<open>codeAutomationExit\<close>, the navigation to the
  endpoint was called before and had succeeded; the log function is installed, with
  success, before the exit function; and \<^verbatim>\<open>open\<close> installs neither.
\<close>

theorem navigation_precedes_bridge_installation:
  "(\<forall>n. (n = ''codeAutomationLog'' \<or> n = ''codeAutomationExit'') \<and>
         ExposeFunction n \<in> set (calls (runTests env testsPath options w0)) \<longrightarrow>
         precedes (Goto (endpointOf (hostOrDefault options) (portOrDefault options)))
            (ExposeFunction n) (calls (runTests env testsPath options w0))
         \<and> failing env (Goto (endpointOf (hostOrDefault options) (portOrDefault options))) = None)
   \<and> (ExposeFunction ''codeAutomationExit'' \<in> set (calls (runTests env testsPath options w0)) \<longrightarrow>
         precedes (ExposeFunction ''codeAutomationLog'') (ExposeFunction ''codeAutomationExit'')
            (calls (runTests env testsPath options w0))
         \<and> failing env (ExposeFunction ''codeAutomationLog'') = None)
   \<and> (\<forall>n. ExposeFunction n \<notin> set (calls (snd (open_session env options w0))))"
proof -
  have cs: "calls (runTests env testsPath options w0) = issued env (runTests_steps env testsPath options)"
    by (simp add: runTests_calls w0_def)
  have a: "precedes (Goto (endpointOf (hostOrDefault options) (portOrDefault options)))
            (ExposeFunction n) (calls (runTests env testsPath options w0))
         \<and> failing env (Goto (endpointOf (hostOrDefault options) (portOrDefault options))) = None"
    if "n = ''codeAutomationLog'' \<or> n = ''codeAutomationExit''"
      and "ExposeFunction n \<in> set (calls (runTests env testsPath options w0))" for n
    using issued_before [OF that(2) [unfolded cs] goto_before_expose [OF that(1)]]
    by (simp add: cs)
  have b: "precedes (ExposeFunction ''codeAutomationLog'') (ExposeFunction ''codeAutomationExit'')
            (calls (runTests env testsPath options w0))
         \<and> failing env (ExposeFunction ''codeAutomationLog'') = None"
    if "ExposeFunction ''codeAutomationExit'' \<in> set (calls (runTests env testsPath options w0))"
    using issued_before [OF that [unfolded cs] log_before_exit]
    by (simp add: cs)
  have c: "ExposeFunction n \<notin> set (calls (snd (open_session env options w0)))" for n
  proof
    assume "ExposeFunction n \<in> set (calls (snd (open_session env options w0)))"
    then have "ExposeFunction n \<in> set (issued env (open_steps env options))"
      by (simp add: open_session_eq w0_def)
    then have "ExposeFunction n \<in> set (map callOf (open_steps env options))"
      by (rule issued_mem)
    then show False using open_steps_no_close [of env options n] by blast
  qed
  show ?thesis using a b c by blast
qed

text \<open>
  In an environment where no call fails the exit function is installed, after the
  navigation and after the log function.
\<close>

theorem navigation_precedes_bridge_installation_witness:
  "ExposeFunction ''codeAutomationExit'' \<in> set (calls (runTests env0 ''/tests'' options0 w0))
   \<and> precedes (Goto (endpointOf ''localhost'' 3000)) (ExposeFunction ''codeAutomationExit'')
        (calls (runTests env0 ''/tests'' options0 w0))
   \<and> precedes (ExposeFunction ''codeAutomationLog'') (ExposeFunction ''codeAutomationExit'')
        (calls (runTests env0 ''/tests'' options0 w0))"
proof -
  have h: "ExposeFunction ''codeAutomationExit'' \<in> set (calls (runTests env0 ''/tests'' options0 w0))"
    by (simp add: runTests_env0_calls)
  have ep: "endpointOf (hostOrDefault options0) (portOrDefault options0) = endpointOf ''localhost'' 3000"
    by (simp add: hostOrDefault_def portOrDefault_def options0_def)
  show ?thesis
    using h navigation_precedes_bridge_installation
      [where env = env0 and testsPath = "''/tests''" and options = options0]
    unfolding ep by blast
qed

text \<open>
  Against C2 as stated: in a run where nothing fails the navigation is called, and
  neither function was installed before it.
\<close>

theorem navigation_before_bridge_installation:
  "Goto (endpointOf ''localhost'' 3000) \<in> set (calls (runTests env0 ''/tests'' options0 w0))
   \<and> \<not> precedes (ExposeFunction ''codeAutomationLog'') (Goto (endpointOf ''localhost'' 3000))
          (calls (runTests env0 ''/tests'' options0 w0))
   \<and> \<not> precedes (ExposeFunction ''codeAutomationExit'') (Goto (endpointOf ''localhost'' 3000))
          (calls (runTests env0 ''/tests'' options0 w0))"
  by (simp add: runTests_env0_calls precedes_def)

text \<open>
  C3. After the exit function has run once the promise is settled, and it keeps that
  state through a second run of the exit function with any code, and through any
  sequence of later events (page events, the context's close, calls of the log and of
  the exit function).
\<close>

theorem outcome_settled_at_most_once:
  "promise (snd (codeAutomationExit env code w)) \<noteq> Pending
   \<and> promise (snd (codeAutomationExit env code' (snd (codeAutomationExit env code w))))
       = promise (snd (codeAutomationExit env code w))
   \<and> promise (session env (snd (codeAutomationExit env code w)) evs)
       = promise (snd (codeAutomationExit env code w))"
proof -
  have a: "promise (snd (codeAutomationExit env code w)) \<noteq> Pending"
    by (rule exit_settles)
  have b: "promise (snd (codeAutomationExit env code' (snd (codeAutomationExit env code w))))
       = promise (snd (codeAutomationExit env code w))"
    using a by (simp add: codeAutomationExit_def perform_eq issue_def s_def e_def Let_def
          split: option.splits)
  show ?thesis using a b session_settled [OF a] by simp
qed

text \<open>
  A session where the exit function is installed: the page exits with 1 and then with
  0, and the promise stays rejected.
\<close>

theorem outcome_settled_at_most_once_witness:
  "promise (session env0 (snd (codeAutomationExit env0 1 (runTests env0 ''/tests'' options0 w0)))
      [CallExit 0]) = Rejected (Error ''Test failed'')"
proof -
  have p: "promise (snd (codeAutomationExit env0 1 (runTests env0 ''/tests'' options0 w0))) =
      Rejected (Error ''Test failed'')"
    by (simp add: exit_promise exposed_pending [OF runTests_env0_exposed])
  have q: "promise (session env0 (snd (codeAutomationExit env0 1 (runTests env0 ''/tests'' options0 w0)))
      [CallExit 0]) = promise (snd (codeAutomationExit env0 1 (runTests env0 ''/tests'' options0 w0)))"
    using outcome_settled_at_most_once
      [where env = env0 and code = 1 and w = "runTests env0 ''/tests'' options0 w0"
         and evs = "[CallExit 0]"]
    by blast
  show ?thesis using q p by (rule trans)
qed

text \<open>
  C4. Starting with no page, after any sequence of page events the counter is the
  number of pages created minus the number closed. An event makes one more call of the
  browser's close exactly when it is a page close that leaves the counter at zero, and
  no call otherwise, so in particular none while the counter stays positive. Over a
  whole sequence the number of close calls is the number of page closes that bring the
  count back to zero. And as long as the counter was positive after every earlier
  event, the browser has been closed once if the sequence has brought the counter to
  zero, and not at all if it has not.
\<close>

theorem browser_closed_when_last_page_closes:
  "openPages (pageEvents evs w0) = int (count_list evs PageCreated) - int (count_list evs PageClosed)
   \<and> browserCloseCalls (onPageEvent ev w) =
       browserCloseCalls w + (if ev = PageClosed \<and> openPages (onPageEvent ev w) = 0 then 1 else 0)
   \<and> browserCloseCalls (pageEvents evs w0) = length (filter (reachesZeroAt evs) [0..<length evs])
   \<and> ((\<forall>k. 0 < k \<and> k < length evs \<longrightarrow> 0 < openPages (pageEvents (take k evs) w0)) \<longrightarrow>
        browserCloseCalls (pageEvents evs w0) =
          (if evs \<noteq> [] \<and> openPages (pageEvents evs w0) = 0 then 1 else 0))"
proof -
  have a: "openPages (pageEvents evs w0) =
      int (count_list evs PageCreated) - int (count_list evs PageClosed)"
    by (simp add: openPages_pageEvents w0_def)
  have b: "browserCloseCalls (onPageEvent ev w) =
       browserCloseCalls w + (if ev = PageClosed \<and> openPages (onPageEvent ev w) = 0 then 1 else 0)"
    by (cases ev) (simp_all add: browserCloseCalls_def Let_def issue_def)
  show ?thesis
    using a b close_calls_count [of evs] first_zero [of evs] by blast
qed

text \<open>
  Two pages are created and closed: the counter is positive after each of the first
  three events, zero after the fourth, and the browser's close has been called once.
\<close>

theorem browser_closed_when_last_page_closes_witness:
  "0 < openPages (pageEvents (take 1 [PageCreated, PageCreated, PageClosed, PageClosed]) w0)
   \<and> 0 < openPages (pageEvents (take 2 [PageCreated, PageCreated, PageClosed, PageClosed]) w0)
   \<and> 0 < openPages (pageEvents (take 3 [PageCreated, PageCreated, PageClosed, PageClosed]) w0)
   \<and> openPages (pageEvents [PageCreated, PageCreated, PageClosed, PageClosed] w0) = 0
   \<and> browserCloseCalls (pageEvents [PageCreated, PageCreated, PageClosed, PageClosed] w0) = 1"
proof -
  let ?evs = "[PageCreated, PageCreated, PageClosed, PageClosed]"
  have p1: "0 < openPages (pageEvents (take 1 ?evs) w0)"
    by (simp add: w0_def Let_def issue_def)
  have p2: "0 < openPages (pageEvents (take 2 ?evs) w0)"
    by (simp add: w0_def Let_def issue_def numeral_2_eq_2)
  have p3: "0 < openPages (pageEvents (take 3 ?evs) w0)"
    by (simp add: w0_def Let_def issue_def numeral_3_eq_3)
  have h: "\<forall>k. 0 < k \<and> k < length ?evs \<longrightarrow> 0 < openPages (pageEvents (take k ?evs) w0)"
  proof (intro allI impI)
    fix k :: nat
    assume "0 < k \<and> k < length ?evs"
    then have "k = 1 \<or> k = 2 \<or> k = 3" by auto
    then show "0 < openPages (pageEvents (take k ?evs) w0)"
      using p1 p2 p3 by blast
  qed
  have z: "openPages (pageEvents ?evs w0) = 0"
    by (simp add: w0_def Let_def issue_def)
  have ne: "?evs \<noteq> []" by simp
  have cond: "?evs \<noteq> [] \<and> openPages (pageEvents ?evs w0) = 0"
    using ne z by (rule conjI)
  have c: "browserCloseCalls (pageEvents ?evs w0) =
      (if ?evs \<noteq> [] \<and> openPages (pageEvents ?evs w0) = 0 then 1 else 0)"
    using h browser_closed_when_last_page_closes [where evs = ?evs] by blast
  have "browserCloseCalls (pageEvents ?evs w0) = 1"
    using c if_P [OF cond] by (rule trans)
  with p1 p2 p3 z show ?thesis by blast
qed

text \<open>
  C5, as the code has it. Neither entry point has a handler for a failing startup
  call. If a call that \<^verbatim>\<open>open\<close> awaits fails, \<^verbatim>\<open>open\<close> throws that call's
  error and the call is the last one made, so nothing runs after it; conversely an
  error thrown by \<^verbatim>\<open>open\<close> is that of the last call made. No call is made twice,
  so nothing is retried; and no close of the server, the browser or the context is ever
  called during startup, so what was opened stays open. In \<^verbatim>\<open>runTests\<close> too a
  failing awaited call is the last call made, no call is made twice and nothing is
  closed; a failing start of the server rejects the promise with the server's error;
  and whenever the promise is rejected during startup, the error is that of the last
  call made. The awaited calls are all the calls of the startup but the listener
  registrations and \<^verbatim>\<open>context.grantPermissions\<close>, which the source calls without
  \<^verbatim>\<open>await\<close>; nothing is stated here about a failure of that call.
\<close>

theorem startup_failure_stops_without_teardown:
  "(\<forall>c err. c \<in> set (calls (snd (open_session env options w0))) \<and> awaited c
        \<and> failing env c = Some err \<longrightarrow>
       fst (open_session env options w0) = Inl err
       \<and> last (calls (snd (open_session env options w0))) = c)
   \<and> (\<forall>err. fst (open_session env options w0) = Inl err \<longrightarrow>
       calls (snd (open_session env options w0)) \<noteq> []
       \<and> failing env (last (calls (snd (open_session env options w0)))) = Some err)
   \<and> distinct (calls (snd (open_session env options w0)))
   \<and> ServerClose \<notin> set (calls (snd (open_session env options w0)))
   \<and> BrowserClose \<notin> set (calls (snd (open_session env options w0)))
   \<and> CloseContext \<notin> set (calls (snd (open_session env options w0)))
   \<and> (\<forall>c err. c \<in> set (calls (runTests env testsPath options w0)) \<and> awaited c
        \<and> failing env c = Some err \<longrightarrow>
       last (calls (runTests env testsPath options w0)) = c)
   \<and> (\<forall>c err. c \<in> set (calls (runTests env testsPath options w0)) \<and> isRunServer c
        \<and> failing env c = Some err \<longrightarrow>
       promise (runTests env testsPath options w0) = Rejected err)
   \<and> (\<forall>err. promise (runTests env testsPath options w0) = Rejected err \<longrightarrow>
       calls (runTests env testsPath options w0) \<noteq> []
       \<and> failing env (last (calls (runTests env testsPath options w0))) = Some err)
   \<and> distinct (calls (runTests env testsPath options w0))
   \<and> ServerClose \<notin> set (calls (runTests env testsPath options w0))
   \<and> BrowserClose \<notin> set (calls (runTests env testsPath options w0))
   \<and> CloseContext \<notin> set (calls (runTests env testsPath options w0))"
proof -
  have g: "\<forall>c err. c \<in> set (calls (snd (open_session env options w0))) \<and> awaited c
        \<and> failing env c = Some err \<longrightarrow>
       fst (open_session env options w0) = Inl err
       \<and> last (calls (snd (open_session env options w0))) = c"
    using failing_step_open by blast
  have h: "\<forall>c err. c \<in> set (calls (runTests env testsPath options w0)) \<and> awaited c
        \<and> failing env c = Some err \<longrightarrow>
       last (calls (runTests env testsPath options w0)) = c"
    using failing_step_runTests by blast
  have r: "\<forall>c err. c \<in> set (calls (runTests env testsPath options w0)) \<and> isRunServer c
        \<and> failing env c = Some err \<longrightarrow>
       promise (runTests env testsPath options w0) = Rejected err"
    using runTests_server_failure by blast
  show ?thesis
    using g h r startup_calls [of env options testsPath] by blast
qed

text \<open>
  When the navigation fails, \<^verbatim>\<open>open\<close> throws its error, the navigation is the last
  call, and neither the server nor the browser has been closed. When the port is in
  use, the start of the server is the last call of \<^verbatim>\<open>runTests\<close>, its promise is
  rejected with the server's error, and the server's close has not been called.
\<close>

theorem startup_failure_stops_without_teardown_witness:
  "Goto (endpointOf ''localhost'' 3000) \<in> set (calls (snd (open_session envGotoFails options0 w0)))
   \<and> awaited (Goto (endpointOf ''localhost'' 3000))
   \<and> failing envGotoFails (Goto (endpointOf ''localhost'' 3000)) = Some (Error ''ERR_CONNECTION_REFUSED'')
   \<and> fst (open_session envGotoFails options0 w0) = Inl (Error ''ERR_CONNECTION_REFUSED'')
   \<and> last (calls (snd (open_session envGotoFails options0 w0))) = Goto (endpointOf ''localhost'' 3000)
   \<and> ServerClose \<notin> set (calls (snd (open_session envGotoFails options0 w0)))
   \<and> BrowserClose \<notin> set (calls (snd (open_session envGotoFails options0 w0)))
   \<and> RunServer ''localhost'' 3000
        (runTests_config (options0\<lparr>extensionTestsPath := Some ''/tests''\<rparr>) (Sources ''/vscode''))
       \<in> set (calls (runTests envPortInUse ''/tests'' options0 w0))
   \<and> awaited (RunServer ''localhost'' 3000
        (runTests_config (options0\<lparr>extensionTestsPath := Some ''/tests''\<rparr>) (Sources ''/vscode'')))
   \<and> isRunServer (RunServer ''localhost'' 3000
        (runTests_config (options0\<lparr>extensionTestsPath := Some ''/tests''\<rparr>) (Sources ''/vscode'')))
   \<and> failing envPortInUse (RunServer ''localhost'' 3000
        (runTests_config (options0\<lparr>extensionTestsPath := Some ''/tests''\<rparr>) (Sources ''/vscode'')))
       = Some (Error ''EADDRINUSE'')
   \<and> promise (runTests envPortInUse ''/tests'' options0 w0) = Rejected (Error ''EADDRINUSE'')
   \<and> last (calls (runTests envPortInUse ''/tests'' options0 w0)) =
       RunServer ''localhost'' 3000
        (runTests_config (options0\<lparr>extensionTestsPath := Some ''/tests''\<rparr>) (Sources ''/vscode''))
   \<and> failing envPortInUse (last (calls (runTests envPortInUse ''/tests'' options0 w0)))
       = Some (Error ''EADDRINUSE'')
   \<and> ServerClose \<notin> set (calls (runTests envPortInUse ''/tests'' options0 w0))"
proof -
  let ?c = "Goto (endpointOf ''localhost'' 3000)"
  let ?r = "RunServer ''localhost'' 3000
        (runTests_config (options0\<lparr>extensionTestsPath := Some ''/tests''\<rparr>) (Sources ''/vscode''))"
  have h1: "?c \<in> set (calls (snd (open_session envGotoFails options0 w0)))"
    using open_goto_fails by simp
  have h2: "awaited ?c" by simp
  have h3: "failing envGotoFails ?c = Some (Error ''ERR_CONNECTION_REFUSED'')"
    by (simp add: envGotoFails_def env0_def)
  have k1: "?r \<in> set (calls (runTests envPortInUse ''/tests'' options0 w0))"
    using runTests_port_in_use by simp
  have k2: "awaited ?r \<and> isRunServer ?r" by simp
  have k3: "failing envPortInUse ?r = Some (Error ''EADDRINUSE'')"
    by (simp add: envPortInUse_def env0_def)
  have k4: "promise (runTests envPortInUse ''/tests'' options0 w0) = Rejected (Error ''EADDRINUSE'')"
    using runTests_port_in_use by blast
  have a: "fst (open_session envGotoFails options0 w0) = Inl (Error ''ERR_CONNECTION_REFUSED'')
       \<and> last (calls (snd (open_session envGotoFails options0 w0))) = ?c
       \<and> ServerClose \<notin> set (calls (snd (open_session envGotoFails options0 w0)))
       \<and> BrowserClose \<notin> set (calls (snd (open_session envGotoFails options0 w0)))"
    using h1 h2 h3 startup_failure_stops_without_teardown
      [where env = envGotoFails and options = options0]
    by blast
  have b: "last (calls (runTests envPortInUse ''/tests'' options0 w0)) = ?r
       \<and> promise (runTests envPortInUse ''/tests'' options0 w0) = Rejected (Error ''EADDRINUSE'')
       \<and> failing envPortInUse (last (calls (runTests envPortInUse ''/tests'' options0 w0)))
           = Some (Error ''EADDRINUSE'')
       \<and> ServerClose \<notin> set (calls (runTests envPortInUse ''/tests'' options0 w0))"
    using k1 k2 k3 k4 startup_failure_stops_without_teardown
      [where env = envPortInUse and options = options0 and testsPath = "''/tests''"]
    by blast
  show ?thesis
    using h1 h2 h3 k1 k2 k3 a b by blast
qed

text \<open>
  Against C5 as stated. The navigation fails after the server was started, the browser
  launched and the context created; \<^verbatim>\<open>open\<close> throws, and the calls made end with
  the navigation: no context, browser or server was closed. And when
  \<^verbatim>\<open>context.grantPermissions\<close> fails, which the source does not await, no error
  propagates at all: \<^verbatim>\<open>open\<close> returns normally after running every later step.
\<close>

theorem startup_failure_not_cleaned_up:
  "fst (open_session envGotoFails options0 w0) = Inl (Error ''ERR_CONNECTION_REFUSED'')
   \<and> calls (snd (open_session envGotoFails options0 w0)) =
     [RunServer ''localhost'' 3000 (open_config options0 (Sources ''/vscode'')),
      Launch chromium \<lparr> lo_headless = False, lo_args = [''--no-sandbox''], lo_devtools = None \<rparr>,
      NewContext, OnPage, NewPage, SetViewportSize width height,
      Goto (endpointOf ''localhost'' 3000)]
   \<and> failing envGrantFails (GrantPermissions [''bogus'']) = Some (Error ''Unknown permission: bogus'')
   \<and> fst (open_session envGrantFails optionsBogus w0) = Inr ()
   \<and> calls (snd (open_session envGrantFails optionsBogus w0)) =
     [RunServer ''localhost'' 3000 (open_config optionsBogus (Sources ''/vscode'')),
      Launch chromium \<lparr> lo_headless = False, lo_args = [''--no-sandbox''], lo_devtools = None \<rparr>,
      NewContext, GrantPermissions [''bogus''], OnPage, NewPage, SetViewportSize width height,
      Goto (endpointOf ''localhost'' 3000), OnceContextClose]"
  using open_goto_fails open_grant_fails by blast

text \<open>
  C6. \<^verbatim>\<open>dispose\<close> returns normally in every state, calls the server's close and the
  browser's close, and leaves the server closed and (when the browser's close does not
  fail) the browser closed. A second call returns normally too and changes neither
  whether the server is closed, nor whether the browser is closed, nor the page counter,
  the promise, the console or the context's close listener. The state is arbitrary, so
  this covers a browser that the page listener has already closed. A repeated call does
  call both closes again; that this changes nothing is the idempotence of the handles'
  close.
\<close>

theorem dispose_closes_both_and_is_idempotent:
  "fst (dispose env w) = Inr ()
   \<and> calls (snd (dispose env w)) = calls w @ [ServerClose, BrowserClose]
   \<and> serverClosed (snd (dispose env w))
   \<and> (failing env BrowserClose = None \<longrightarrow> browserClosed env (snd (dispose env w)))
   \<and> fst (dispose env (snd (dispose env w))) = Inr ()
   \<and> serverClosed (snd (dispose env (snd (dispose env w)))) = serverClosed (snd (dispose env w))
   \<and> browserClosed env (snd (dispose env (snd (dispose env w)))) = browserClosed env (snd (dispose env w))
   \<and> openPages (snd (dispose env (snd (dispose env w)))) = openPages (snd (dispose env w))
   \<and> promise (snd (dispose env (snd (dispose env w)))) = promise (snd (dispose env w))
   \<and> console (snd (dispose env (snd (dispose env w)))) = console (snd (dispose env w))
   \<and> contextCloseFired (snd (dispose env (snd (dispose env w)))) = contextCloseFired (snd (dispose env w))"
  by (simp add: dispose_def perform_eq serverClosed_def browserClosed_def)

text \<open>
  The only page is closed, which closes the browser; \<^verbatim>\<open>dispose\<close> is then called
  twice.
\<close>

theorem dispose_closes_both_and_is_idempotent_witness:
  "failing env0 BrowserClose = None
   \<and> browserClosed env0
       (snd (dispose env0 (pageEvents [PageCreated, PageClosed] (snd (open_session env0 options0 w0)))))
   \<and> serverClosed
       (snd (dispose env0 (pageEvents [PageCreated, PageClosed] (snd (open_session env0 options0 w0)))))
   \<and> fst (dispose env0 (snd (dispose env0
        (pageEvents [PageCreated, PageClosed] (snd (open_session env0 options0 w0)))))) = Inr ()"
proof -
  have h: "failing env0 BrowserClose = None" by (simp add: env0_def)
  show ?thesis
    using h dispose_closes_both_and_is_idempotent
      [where env = env0
         and w = "pageEvents [PageCreated, PageClosed] (snd (open_session env0 options0 w0))"]
    by blast
qed

text \<open>
  C7. When the browser's close fails inside the exit function, the function still
  returns normally, the error is written to the console's error channel, the server's
  close is called after the browser's, the server is closed, and the promise is settled
  by the code if it was pending.
\<close>

theorem exit_survives_browser_close_error:
  assumes "failing env BrowserClose = Some err"
  shows "fst (codeAutomationExit env code w) = Inr ()
       \<and> console (snd (codeAutomationExit env code w)) =
           console w @ [(''error'', [''Error when closing browser: '' @ errorToString err])]
       \<and> calls (snd (codeAutomationExit env code w)) = calls w @ [BrowserClose, ServerClose]
       \<and> serverClosed (snd (codeAutomationExit env code w))
       \<and> promise (snd (codeAutomationExit env code w)) =
           (if promise w = Pending
            then (if code = 0 then Fulfilled else Rejected (Error ''Test failed''))
            else promise w)"
  using assms
  by (simp add: codeAutomationExit_def perform_eq issue_def s_def e_def Let_def serverClosed_def)

text \<open>An environment where the browser's close fails, and the exit code 1.\<close>

theorem exit_survives_browser_close_error_witness:
  "failing envCloseFails BrowserClose = Some (Error ''closed'')
   \<and> fst (codeAutomationExit envCloseFails 1 w0) = Inr ()
   \<and> console (snd (codeAutomationExit envCloseFails 1 w0)) =
       [(''error'', [''Error when closing browser: Error: closed''])]
   \<and> serverClosed (snd (codeAutomationExit envCloseFails 1 w0))
   \<and> promise (snd (codeAutomationExit envCloseFails 1 w0)) = Rejected (Error ''Test failed'')"
proof -
  have h: "failing envCloseFails BrowserClose = Some (Error ''closed'')"
    by (simp add: envCloseFails_def env0_def)
  show ?thesis
    using h exit_survives_browser_close_error [OF h, where code = 1 and w = w0]
    by (simp add: w0_def errorToString_def)
qed

text \<open>
  C8. In \<^verbatim>\<open>open\<close> and in \<^verbatim>\<open>runTests\<close> alike: if the start of the server was
  called and failed, then that call is the last call made, no launch of a browser is
  among the calls, and the server's error is what \<^verbatim>\<open>open\<close> throws and what the
  promise of \<^verbatim>\<open>runTests\<close> is rejected with.
\<close>

theorem server_failure_launches_no_browser:
  "(\<forall>c. c \<in> set (calls (snd (open_session env options w0))) \<and> isRunServer c
         \<and> failing env c = Some err \<longrightarrow>
       fst (open_session env options w0) = Inl err
       \<and> filter isLaunch (calls (snd (open_session env options w0))) = []
       \<and> last (calls (snd (open_session env options w0))) = c)
   \<and> (\<forall>c. c \<in> set (calls (runTests env testsPath options w0)) \<and> isRunServer c
         \<and> failing env c = Some err \<longrightarrow>
       promise (runTests env testsPath options w0) = Rejected err
       \<and> filter isLaunch (calls (runTests env testsPath options w0)) = []
       \<and> last (calls (runTests env testsPath options w0)) = c)"
proof -
  let ?o = "options\<lparr>extensionTestsPath := Some testsPath\<rparr>"
  let ?ep = "endpointOf (hostOrDefault options) (portOrDefault options)"
  let ?ob = "openBrowser_steps env ?ep options @ [Fire OnceContextClose]"
  let ?ep' = "endpointOf (hostOrDefault ?o) (portOrDefault ?o)"
  let ?ex = "runTests_exec env ?o"
  let ?r = "RunServer (hostOrDefault options) (portOrDefault options)
              (open_config options (buildOf env options))"
  let ?r' = "RunServer (hostOrDefault ?o) (portOrDefault ?o) (runTests_config ?o (buildOf env ?o))"
  have gb: "\<not> isRunServer x \<and> \<not> isLaunch x" if "x \<in> set (issued env (getBuild_steps opt))" for x opt
    using issued_mem [OF that] by (auto dest!: getBuild_steps_cases)
  have ob: "\<not> isRunServer x" if "x \<in> set (issued env ?ob)" for x
    using issued_mem [OF that] by (auto dest!: openBrowser_steps_cases)
  have ex: "\<not> isRunServer x" if "x \<in> set (issued env ?ex)" for x
    using issued_mem [OF that] by (auto simp: runTests_exec_def dest!: openBrowser_steps_cases)
  have so: "open_steps env options = getBuild_steps options @ [Await ?r] @ ?ob"
    by (simp add: open_steps_def)
  have sr: "runTests_steps env testsPath options = getBuild_steps ?o @ [Await ?r'] @ ?ex"
    by (simp add: runTests_steps_def runTests_pre_def)
  have sp: "runTests_pre env ?o = getBuild_steps ?o @ [Await ?r']"
    by (simp add: runTests_pre_def)
  have a: "fst (open_session env options w0) = Inl err
       \<and> filter isLaunch (calls (snd (open_session env options w0))) = []
       \<and> last (calls (snd (open_session env options w0))) = c"
    if "c \<in> set (calls (snd (open_session env options w0)))" "isRunServer c" "failing env c = Some err"
    for c
  proof -
    have "c \<in> set (issued env (getBuild_steps options @ [Await ?r] @ ?ob))"
      using that(1) by (simp add: open_session_eq w0_def so)
    from server_step [OF gb ob this that(2) that(3)]
    show ?thesis by (simp add: open_session_eq w0_def so)
  qed
  have b: "promise (runTests env testsPath options w0) = Rejected err
       \<and> filter isLaunch (calls (runTests env testsPath options w0)) = []
       \<and> last (calls (runTests env testsPath options w0)) = c"
    if "c \<in> set (calls (runTests env testsPath options w0))" "isRunServer c" "failing env c = Some err"
    for c
  proof -
    have "c \<in> set (issued env (getBuild_steps ?o @ [Await ?r'] @ ?ex))"
      using that(1) by (simp add: runTests_calls w0_def sr)
    from server_step [OF gb ex this that(2) that(3)]
    show ?thesis by (simp add: runTests_calls runTests_promise w0_def sr sp)
  qed
  show ?thesis using a b by blast
qed

text \<open>The port is in use: the server start fails and nothing is launched.\<close>

theorem server_failure_launches_no_browser_witness:
  "RunServer ''localhost'' 3000 (open_config options0 (Sources ''/vscode''))
     \<in> set (calls (snd (open_session envPortInUse options0 w0)))
   \<and> failing envPortInUse (RunServer ''localhost'' 3000 (open_config options0 (Sources ''/vscode'')))
       = Some (Error ''EADDRINUSE'')
   \<and> fst (open_session envPortInUse options0 w0) = Inl (Error ''EADDRINUSE'')
   \<and> filter isLaunch (calls (snd (open_session envPortInUse options0 w0))) = []"
proof -
  let ?c = "RunServer ''localhost'' 3000 (open_config options0 (Sources ''/vscode''))"
  have h1: "?c \<in> set (calls (snd (open_session envPortInUse options0 w0)))"
    using open_port_in_use by simp
  have h2: "isRunServer ?c" by simp
  have h3: "failing envPortInUse ?c = Some (Error ''EADDRINUSE'')"
    by (simp add: envPortInUse_def env0_def)
  show ?thesis
    using h1 h2 h3 server_failure_launches_no_browser
      [where env = envPortInUse and options = options0 and err = "Error ''EADDRINUSE''"]
    by blast
qed

text \<open>
  C9. The launch arguments contain \<^verbatim>\<open>--no-sandbox\<close> if and only if the platform is
  \<^verbatim>\<open>linux\<close> and the browser type is chromium; and these arguments are the ones
  that the launch, the first call of \<^verbatim>\<open>openBrowser\<close>, is made with.
\<close>

theorem no_sandbox_iff_linux_chromium:
  "(''--no-sandbox'' \<in> set (launchArgs (platform env) options))
     = (platform env = ''linux'' \<and> browserType options = chromium)
   \<and> hd (calls (snd (openBrowser env endpoint options w0))) =
       Launch (browserType options)
         \<lparr> lo_headless = launchHeadless options,
           lo_args = launchArgs (platform env) options,
           lo_devtools = devTools options \<rparr>"
  by (simp add: launchArgs_def openBrowser_def openBrowser_steps_def perform_eq w0_def)

text \<open>Chromium on Linux gets the flag; Firefox on Linux does not.\<close>

theorem no_sandbox_iff_linux_chromium_witness:
  "''--no-sandbox'' \<in> set (launchArgs (platform env0) options0)
   \<and> ''--no-sandbox'' \<notin> set (launchArgs (platform env0) (options0\<lparr>browserType := firefox\<rparr>))"
proof -
  have a: "platform env0 = ''linux'' \<and> browserType options0 = chromium"
    by (simp add: env0_def options0_def)
  have b: "\<not> (platform env0 = ''linux'' \<and> browserType (options0\<lparr>browserType := firefox\<rparr>) = chromium)"
    by simp
  show ?thesis
    using a b no_sandbox_iff_linux_chromium [where env = env0 and options = options0]
      no_sandbox_iff_linux_chromium [where env = env0 and options = "options0\<lparr>browserType := firefox\<rparr>"]
    by blast
qed

text \<open>
  C10. When \<^verbatim>\<open>hideServerLog\<close> is not set, every configuration that \<^verbatim>\<open>open\<close>
  or \<^verbatim>\<open>runTests\<close> starts the server with has \<^verbatim>\<open>hideServerLog\<close> true, whether
  or not a test path is set.
\<close>

theorem hideServerLog_defaults_to_true:
  assumes "hideServerLog options = None"
  shows "(\<forall>h p cfg. RunServer h p cfg \<in> set (calls (snd (open_session env options w0)))
            \<longrightarrow> cfg_hideServerLog cfg)
       \<and> (\<forall>h p cfg. RunServer h p cfg \<in> set (calls (runTests env testsPath options w0))
            \<longrightarrow> cfg_hideServerLog cfg)
       \<and> cfg_hideServerLog (open_config options build)
       \<and> cfg_hideServerLog (runTests_config (options\<lparr>extensionTestsPath := Some testsPath\<rparr>) build)"
proof -
  let ?o = "options\<lparr>extensionTestsPath := Some testsPath\<rparr>"
  have a: "cfg_hideServerLog cfg" if "RunServer h p cfg \<in> set (map callOf (open_steps env options))"
    for h p cfg
    using that assms
    by (auto simp: open_steps_def open_config_def
          dest!: getBuild_steps_cases openBrowser_steps_cases)
  have b: "cfg_hideServerLog cfg"
    if "RunServer h p cfg \<in> set (map callOf (runTests_steps env testsPath options))" for h p cfg
    using that assms
    by (auto simp: runTests_steps_def runTests_pre_def runTests_exec_def runTests_config_def
          dest!: getBuild_steps_cases openBrowser_steps_cases)
  have a': "\<forall>h p cfg. RunServer h p cfg \<in> set (calls (snd (open_session env options w0)))
            \<longrightarrow> cfg_hideServerLog cfg"
  proof (intro allI impI)
    fix h p cfg
    assume "RunServer h p cfg \<in> set (calls (snd (open_session env options w0)))"
    then have "RunServer h p cfg \<in> set (issued env (open_steps env options))"
      by (simp add: open_session_eq w0_def)
    then have "RunServer h p cfg \<in> set (map callOf (open_steps env options))"
      by (rule issued_mem)
    then show "cfg_hideServerLog cfg" by (rule a)
  qed
  have b': "\<forall>h p cfg. RunServer h p cfg \<in> set (calls (runTests env testsPath options w0))
            \<longrightarrow> cfg_hideServerLog cfg"
  proof (intro allI impI)
    fix h p cfg
    assume "RunServer h p cfg \<in> set (calls (runTests env testsPath options w0))"
    then have "RunServer h p cfg \<in> set (issued env (runTests_steps env testsPath options))"
      by (simp add: runTests_calls w0_def)
    then have "RunServer h p cfg \<in> set (map callOf (runTests_steps env testsPath options))"
      by (rule issued_mem)
    then show "cfg_hideServerLog cfg" by (rule b)
  qed
  have c: "cfg_hideServerLog (open_config options build)"
    using assms by (simp add: open_config_def)
  have d: "cfg_hideServerLog (runTests_config ?o build)"
    using assms by (simp add: runTests_config_def)
  show ?thesis
    using a' b' c d by blast
qed

text \<open>
  Options without \<^verbatim>\<open>hideServerLog\<close> and without a test path: \<^verbatim>\<open>open\<close> starts
  the server with \<^verbatim>\<open>hideServerLog\<close> true.
\<close>

theorem hideServerLog_defaults_to_true_witness:
  "hideServerLog options0 = None
   \<and> RunServer ''localhost'' 3000 (open_config options0 (Sources ''/vscode''))
       \<in> set (calls (snd (open_session env0 options0 w0)))
   \<and> cfg_hideServerLog (open_config options0 (Sources ''/vscode''))"
proof -
  have h: "hideServerLog options0 = None" by (simp add: options0_def)
  have m: "RunServer ''localhost'' 3000 (open_config options0 (Sources ''/vscode''))
       \<in> set (calls (snd (open_session env0 options0 w0)))"
    by (simp add: open_env0_calls)
  show ?thesis
    using h m hideServerLog_defaults_to_true [OF h, where env = env0]
    by blast
qed

end
